theory Spec2Isabelle
  imports Main "HOL-Library.Word"
begin

unbundle bit_operations_syntax

section \<open>Data model\<close>

text \<open>
  A Python \<open>bytes\<close> object is a sequence of 8-bit values; reading an element gives a
  Python integer in \<open>[0, 255]\<close> (\<open>uint\<close>). A Python \<open>str\<close> is a sequence of Unicode
  code points, so it is modelled as a list of code points and not as a list of 8-bit
  characters.
\<close>

type_synonym byte = "8 word"
type_synonym pybytes = "byte list"
type_synonym codepoint = nat
type_synonym ustring = "codepoint list"

text \<open>
  The exceptions the modelled operations can raise. All three are subclasses of
  Python's \<open>Exception\<close>, which is what \<open>except Exception\<close> catches.
\<close>

datatype py_error = IndexError | ValueError | UnicodeDecodeError

section \<open>Python primitives used by the program\<close>

text \<open>\<open>seq[k]\<close> for a constant index \<open>k \<ge> 0\<close>: IndexError when out of range.\<close>

definition getitem :: "pybytes \<Rightarrow> nat \<Rightarrow> py_error + int" where
  "getitem seq k = (if k < length seq then Inr (uint (seq ! k)) else Inl IndexError)"

text \<open>\<open>data[i:j]\<close> for \<open>0 \<le> i\<close>: slicing clips to the sequence and never raises.\<close>

definition py_slice :: "pybytes \<Rightarrow> nat \<Rightarrow> nat \<Rightarrow> pybytes" where
  "py_slice xs i j = take (j - i) (drop i xs)"

text \<open>\<open>range(n)\<close>: empty when \<open>n \<le> 0\<close>.\<close>

definition py_range :: "int \<Rightarrow> nat list" where
  "py_range n = [0..<nat n]"

text \<open>\<open>bytes(iterable of ints)\<close>: ValueError unless every value is in \<open>range(256)\<close>.\<close>

fun bytes_ctor :: "int list \<Rightarrow> py_error + pybytes" where
  "bytes_ctor [] = Inr []"
| "bytes_ctor (x # xs) =
     (if 0 \<le> x \<and> x < 256
      then (case bytes_ctor xs of Inl e \<Rightarrow> Inl e | Inr bs \<Rightarrow> Inr (word_of_int x # bs))
      else Inl ValueError)"

text \<open>\<open>chr(n)\<close>: ValueError outside \<open>range(0x110000)\<close>.\<close>

definition chr_py :: "int \<Rightarrow> py_error + codepoint" where
  "chr_py n = (if 0 \<le> n \<and> n < 0x110000 then Inr (nat n) else Inl ValueError)"

definition ord_py :: "codepoint \<Rightarrow> int" where
  "ord_py c = int c"

text \<open>\<open>sep.join(parts)\<close>.\<close>

fun join :: "ustring \<Rightarrow> ustring list \<Rightarrow> ustring" where
  "join sep [] = []"
| "join sep [x] = x"
| "join sep (x # y # ys) = x @ sep @ join sep (y # ys)"

text \<open>Digits of the format specifications: \<open>0-9\<close>, then \<open>A-F\<close> (upper case).\<close>

definition digit_char :: "nat \<Rightarrow> codepoint" where
  "digit_char d = (if d < 10 then 48 + d else 55 + d)"

text \<open>\<open>str(n)\<close> and \<open>f"{n}"\<close> for a non-negative integer: decimal, no padding.\<close>

fun format_dec :: "nat \<Rightarrow> ustring" where
  "format_dec n = (if n < 10 then [digit_char n] else format_dec (n div 10) @ [digit_char (n mod 10)])"

text \<open>\<open>f"{n:X}"\<close> for a non-negative integer: upper-case hexadecimal, no padding.\<close>

fun format_X :: "nat \<Rightarrow> ustring" where
  "format_X n = (if n < 16 then [digit_char n] else format_X (n div 16) @ [digit_char (n mod 16)])"

declare format_dec.simps [simp del] format_X.simps [simp del]

text \<open>\<open>f"{b:02X}"\<close>: upper-case hexadecimal, zero-padded to at least two digits.\<close>

definition format_02X :: "nat \<Rightarrow> ustring" where
  "format_02X n = (let s = format_X n in replicate (2 - length s) 48 @ s)"

section \<open>The program\<close>

subsection \<open>\<open>to_signed\<close>\<close>

definition to_signed :: "int \<Rightarrow> int" where
  "to_signed b = (if b < 128 then b else b - 256)"

subsection \<open>\<open>detect_header\<close>\<close>

text \<open>The notice printed when a header is found (the source's string literal).\<close>

definition header_notice :: ustring where
  "header_notice =
     [0x35, 0x31, 0x32, 0x30D0, 0x30A4, 0x30C8, 0x306E, 0x30D8, 0x30C3, 0x30C0, 0x30FC,
      0x3092, 0x691C, 0x51FA, 0x3057, 0x307E, 0x3057, 0x305F, 0x3002, 0x30B9, 0x30AD,
      0x30C3, 0x30D7, 0x3057, 0x307E, 0x3059, 0x3002]"

text \<open>
  The function prints and returns; the model returns the lines printed to standard
  output together with the returned bytes.
\<close>

definition detect_header :: "pybytes \<Rightarrow> ustring list \<times> pybytes" where
  "detect_header rom_data =
     (if int (length rom_data) mod 0x2000 = 512
      then (if list_all (\<lambda>b. uint b = 0x00 \<or> uint b = 0xFF) (py_slice rom_data 0 512)
            then ([header_notice], drop 512 rom_data)
            else ([], rom_data))
      else ([], rom_data))"

subsection \<open>\<open>search_candidates\<close>\<close>

text \<open>
  One iteration of the loop body at index \<open>i\<close>, with the list \<open>candidates\<close> passed
  through; the four element reads can raise IndexError.
\<close>

definition scan_step ::
  "pybytes \<Rightarrow> nat \<Rightarrow> (nat \<times> pybytes) list \<Rightarrow> py_error + (nat \<times> pybytes) list" where
  "scan_step rom_data i candidates =
     (let seq = py_slice rom_data i (i + 4) in
      case getitem seq 0 of Inl e \<Rightarrow> Inl e | Inr a \<Rightarrow>
     (case getitem seq 1 of Inl e \<Rightarrow> Inl e | Inr b \<Rightarrow>
     (case getitem seq 2 of Inl e \<Rightarrow> Inl e | Inr c \<Rightarrow>
     (case getitem seq 3 of Inl e \<Rightarrow> Inl e | Inr d \<Rightarrow>
      (let diff0 = to_signed a - to_signed b;
           diff1 = to_signed b - to_signed c;
           diff2 = to_signed c - to_signed d
       in if diff0 = 28 \<and> diff1 = - 7 \<and> diff2 = 12
          then Inr (candidates @ [(i, seq)])
          else Inr candidates)))))"

text \<open>
  The condition of the \<open>if\<close> in the loop body, read at offset \<open>i\<close> of the whole
  sequence instead of the four-byte slice; \<open>scan_step_in_range\<close> below relates the two.
\<close>

definition window_matches :: "pybytes \<Rightarrow> nat \<Rightarrow> bool" where
  "window_matches rom_data i =
     (to_signed (uint (rom_data ! i)) - to_signed (uint (rom_data ! (i + 1))) = 28 \<and>
      to_signed (uint (rom_data ! (i + 1))) - to_signed (uint (rom_data ! (i + 2))) = - 7 \<and>
      to_signed (uint (rom_data ! (i + 2))) - to_signed (uint (rom_data ! (i + 3))) = 12)"

text \<open>The \<open>for\<close> loop over the indices; it stops at the first exception.\<close>

fun scan_loop ::
  "pybytes \<Rightarrow> nat list \<Rightarrow> (nat \<times> pybytes) list \<Rightarrow> py_error + (nat \<times> pybytes) list" where
  "scan_loop rom_data [] candidates = Inr candidates"
| "scan_loop rom_data (i # rest) candidates =
     (case scan_step rom_data i candidates of
        Inl e \<Rightarrow> Inl e
      | Inr candidates' \<Rightarrow> scan_loop rom_data rest candidates')"

definition search_candidates :: "pybytes \<Rightarrow> py_error + (nat \<times> pybytes) list" where
  "search_candidates rom_data =
     scan_loop rom_data (py_range (int (length rom_data) - 3)) []"

subsection \<open>\<open>convert_sequence\<close>\<close>

definition convert_sequence :: "pybytes \<Rightarrow> py_error + pybytes" where
  "convert_sequence seq =
     (let offset = 0xA7 in bytes_ctor (map (\<lambda>b. (uint b + offset) AND 0xFF) seq))"

subsection \<open>\<open>decode_shift_jis\<close>\<close>

text \<open>The marker returned when decoding fails (the source's string literal).\<close>

definition undecodable :: ustring where
  "undecodable = [0x3C, 0x30C7, 0x30B3, 0x30FC, 0x30C9, 0x4E0D, 0x53EF, 0x3E]"

text \<open>
  \<open>bytes.decode("cp932")\<close> belongs to the Python library; its code-page table is not
  part of the program. It is a parameter \<open>cp932\<close>: a function that returns the decoded
  string or raises. The \<open>try\<close>/\<open>except Exception\<close> around it turns every modelled
  exception into the marker.
\<close>

definition decode_shift_jis ::
  "(pybytes \<Rightarrow> py_error + ustring) \<Rightarrow> pybytes \<Rightarrow> py_error + ustring" where
  "decode_shift_jis cp932 data =
     (case cp932 data of Inr s \<Rightarrow> Inr s | Inl e \<Rightarrow> Inr undecodable)"

subsection \<open>\<open>to_fullwidth\<close>\<close>

text \<open>
  \<open>unicodedata.normalize("NFKC", s)\<close> belongs to the Python library as well; the
  normalisation tables are not part of the program. It is a parameter \<open>nfkc\<close>.
\<close>

definition to_fullwidth :: "(ustring \<Rightarrow> ustring) \<Rightarrow> ustring \<Rightarrow> ustring" where
  "to_fullwidth nfkc s = nfkc s"

subsection \<open>\<open>katakana_to_hiragana\<close>\<close>

text \<open>The expression computed for one character \<open>ch\<close> of the generator.\<close>

definition fold_char :: "codepoint \<Rightarrow> py_error + codepoint" where
  "fold_char ch =
     (if 0x30A1 \<le> ord_py ch \<and> ord_py ch \<le> 0x30F6 then chr_py (ord_py ch - 0x60) else Inr ch)"

text \<open>The generator consumed by \<open>"".join\<close>: characters in order, stopping at an exception.\<close>

fun katakana_to_hiragana :: "ustring \<Rightarrow> py_error + ustring" where
  "katakana_to_hiragana [] = Inr []"
| "katakana_to_hiragana (ch # s) =
     (case fold_char ch of
        Inl e \<Rightarrow> Inl e
      | Inr ch' \<Rightarrow>
          (case katakana_to_hiragana s of Inl e \<Rightarrow> Inl e | Inr s' \<Rightarrow> Inr (ch' # s')))"

subsection \<open>The core of \<open>main\<close>: from the bytes read to the report written\<close>

text \<open>The string literals of the report.\<close>

definition count_label :: ustring where
  "count_label = [0x691C, 0x51FA, 0x3055, 0x308C, 0x305F, 0x5019, 0x88DC, 0x6570, 0x3A, 0x20]"

definition offset_label :: ustring where
  "offset_label = [0x30AA, 0x30D5, 0x30BB, 0x30C3, 0x30C8, 0x20, 0x30, 0x78]"

definition original_label :: ustring where
  "original_label =
     [0x20, 0x20, 0x5143, 0x30D0, 0x30A4, 0x30C8, 0x5217, 0x20, 0x20, 0x20, 0x20, 0x3A, 0x20]"

definition converted_label :: ustring where
  "converted_label =
     [0x20, 0x20, 0x5909, 0x63DB, 0x5F8C, 0x30D0, 0x30A4, 0x30C8, 0x5217, 0x3A, 0x20]"

definition decoded_label :: ustring where
  "decoded_label =
     [0x20, 0x20, 0x53, 0x68, 0x69, 0x66, 0x74, 0x2D, 0x4A, 0x49, 0x53, 0x6587, 0x5B57,
      0x20, 0x3A, 0x20]"

definition fullwidth_label :: ustring where
  "fullwidth_label =
     [0x20, 0x20, 0x5168, 0x89D2, 0x8868, 0x793A, 0x20, 0x20, 0x20, 0x20, 0x20, 0x20, 0x3A, 0x20]"

definition hiragana_label :: ustring where
  "hiragana_label =
     [0x20, 0x20, 0x3072, 0x3089, 0x304C, 0x306A, 0x8868, 0x793A, 0x20, 0x20, 0x3A, 0x20]"

definition hex_bytes :: "pybytes \<Rightarrow> ustring" where
  "hex_bytes bs = join [0x20] (map (\<lambda>b. format_02X (unat b)) bs)"

text \<open>The f-string appended for one candidate.\<close>

definition candidate_block ::
  "nat \<Rightarrow> pybytes \<Rightarrow> pybytes \<Rightarrow> ustring \<Rightarrow> ustring \<Rightarrow> ustring \<Rightarrow> ustring" where
  "candidate_block offset seq conv decoded fullwidth hiragana =
     offset_label @ format_X offset @ [0x3A, 0x0A]
     @ original_label @ hex_bytes seq @ [0x0A]
     @ converted_label @ hex_bytes conv @ [0x0A]
     @ decoded_label @ decoded @ [0x0A]
     @ fullwidth_label @ fullwidth @ [0x0A]
     @ hiragana_label @ hiragana @ [0x0A]"

text \<open>The loop over the candidates, with \<open>output_lines\<close> passed through.\<close>

fun report_loop ::
  "(pybytes \<Rightarrow> py_error + ustring) \<Rightarrow> (ustring \<Rightarrow> ustring) \<Rightarrow>
   (nat \<times> pybytes) list \<Rightarrow> ustring list \<Rightarrow> py_error + ustring list" where
  "report_loop cp932 nfkc [] output_lines = Inr output_lines"
| "report_loop cp932 nfkc ((offset, seq) # rest) output_lines =
     (case convert_sequence seq of Inl e \<Rightarrow> Inl e | Inr conv \<Rightarrow>
     (case decode_shift_jis cp932 conv of Inl e \<Rightarrow> Inl e | Inr decoded \<Rightarrow>
      (let fullwidth = to_fullwidth nfkc decoded in
       case katakana_to_hiragana fullwidth of Inl e \<Rightarrow> Inl e | Inr hiragana \<Rightarrow>
         report_loop cp932 nfkc rest
           (output_lines @ [candidate_block offset seq conv decoded fullwidth hiragana]))))"

text \<open>
  Lines 73 to 94 of \<open>main\<close>: the text written to the report file, or the exception
  that ends the run.
\<close>

definition core_report ::
  "(pybytes \<Rightarrow> py_error + ustring) \<Rightarrow> (ustring \<Rightarrow> ustring) \<Rightarrow> pybytes \<Rightarrow> py_error + ustring" where
  "core_report cp932 nfkc raw =
     (let rom_data = snd (detect_header raw) in
      case search_candidates rom_data of Inl e \<Rightarrow> Inl e | Inr candidates \<Rightarrow>
      (let output_lines = [count_label @ format_dec (length candidates) @ [0x0A]] in
       case report_loop cp932 nfkc candidates output_lines of
         Inl e \<Rightarrow> Inl e
       | Inr output_lines' \<Rightarrow> Inr (join [0x0A] output_lines')))"

text \<open>
  The block that one pass of the loop body appends for the candidate \<open>(offset, seq)\<close>
  when none of its calls raises: the body of \<open>report_loop\<close> with the result of each call
  written out. \<open>report_loop_eq\<close> below shows that the loop appends exactly this block
  for every candidate.
\<close>

definition appended_block ::
  "(pybytes \<Rightarrow> py_error + ustring) \<Rightarrow> (ustring \<Rightarrow> ustring) \<Rightarrow> nat \<times> pybytes \<Rightarrow> ustring" where
  "appended_block cp932 nfkc = (\<lambda>(offset, seq).
     (let conv = map (\<lambda>b. b + 0xA7) seq;
          decoded = (case cp932 conv of Inr s \<Rightarrow> s | Inl e \<Rightarrow> undecodable);
          fullwidth = nfkc decoded;
          hiragana = map (\<lambda>ch. if 0x30A1 \<le> ch \<and> ch \<le> 0x30F6 then ch - 0x60 else ch) fullwidth
      in candidate_block offset seq conv decoded fullwidth hiragana))"

section \<open>Definitions that follow the specification\<close>

text \<open>
  The inverse transform is not part of the program. This definition follows the
  specification's words, \<open>(x - 0xA7) mod 256\<close> on every byte, so that the round trip
  with \<open>convert_sequence\<close> can be stated.
\<close>

definition inverse_transform :: "pybytes \<Rightarrow> pybytes" where
  "inverse_transform w = map (\<lambda>x. word_of_int ((uint x - 0xA7) mod 256)) w"

section \<open>Auxiliary facts\<close>

subsection \<open>Bytes and integers\<close>

lemma and_255_mod: "(k::int) AND 0xFF = k mod 256"
proof -
  have "k AND mask 8 = k mod 256"
    by (simp add: take_bit_eq_mask [symmetric] take_bit_eq_mod)
  then show ?thesis by (simp add: mask_eq_exp_minus_1)
qed

lemma word_of_int_mod_256: "(word_of_int (k mod 256) :: byte) = word_of_int k"
  by (simp add: word_of_int_eq_iff take_bit_eq_mod)

lemma upper_half_mod: "0 \<le> (u::int) \<Longrightarrow> u < 256 \<Longrightarrow> \<not> u < 128 \<Longrightarrow> (u + 128) mod 256 = u - 128"
  by (rule int_mod_pos_eq [where q = 1]) simp_all

text \<open>\<open>to_signed\<close> of a byte's value is its two's-complement reading.\<close>

lemma to_signed_sint: "to_signed (uint (b :: byte)) = sint b"
proof -
  have bounds: "0 \<le> uint b" "uint b < 256"
    using uint_lt2p [of b] by simp_all
  have m: "(uint b + 128) mod 256 = (if uint b < 128 then uint b + 128 else uint b - 128)"
    using bounds by (simp add: upper_half_mod)
  show ?thesis
    by (simp add: to_signed_def sint_uint signed_take_bit_eq_take_bit_shift take_bit_eq_mod m)
qed

subsection \<open>The scanner\<close>

lemma py_slice_window:
  assumes "i + 3 < length xs"
  shows "py_slice xs i (i + 4) = [xs ! i, xs ! (i + 1), xs ! (i + 2), xs ! (i + 3)]"
proof -
  have d0: "drop i xs = xs ! i # drop (i + 1) xs"
    using assms Cons_nth_drop_Suc [of i xs] by simp
  have d1: "drop (i + 1) xs = xs ! (i + 1) # drop (i + 2) xs"
    using assms Cons_nth_drop_Suc [of "i + 1" xs] by simp
  have d2: "drop (i + 2) xs = xs ! (i + 2) # drop (i + 3) xs"
    using assms Cons_nth_drop_Suc [of "i + 2" xs] by (simp add: numeral_3_eq_3)
  have d3: "drop (i + 3) xs = xs ! (i + 3) # drop (i + 4) xs"
    using assms Cons_nth_drop_Suc [of "i + 3" xs] by (simp add: numeral_eq_Suc)
  have "take 4 (drop i xs) = [xs ! i, xs ! (i + 1), xs ! (i + 2), xs ! (i + 3)]"
    unfolding d0 d1 d2 d3 by (simp add: numeral_eq_Suc)
  then show ?thesis
    by (simp add: py_slice_def)
qed

text \<open>Inside the range of the loop no element read fails, and the body is a filter step.\<close>

lemma scan_step_in_range:
  assumes "i + 3 < length xs"
  shows "scan_step xs i cs =
           Inr (if window_matches xs i then cs @ [(i, py_slice xs i (i + 4))] else cs)"
  using assms
  by (simp add: scan_step_def py_slice_window getitem_def window_matches_def Let_def)

lemma scan_loop_in_range:
  assumes "\<forall>i \<in> set idxs. i + 3 < length xs"
  shows "scan_loop xs idxs cs =
           Inr (cs @ map (\<lambda>i. (i, py_slice xs i (i + 4))) (filter (window_matches xs) idxs))"
  using assms
  by (induction idxs arbitrary: cs) (simp_all add: scan_step_in_range)

lemma search_candidates_eq:
  "search_candidates xs =
     Inr (map (\<lambda>i. (i, py_slice xs i (i + 4))) (filter (window_matches xs) [0..<length xs - 3]))"
proof -
  have idx: "py_range (int (length xs) - 3) = [0..<length xs - 3]"
    by (simp add: py_range_def nat_diff_distrib')
  have "\<forall>i \<in> set [0..<length xs - 3]. i + 3 < length xs"
    by auto
  then show ?thesis
    unfolding search_candidates_def idx by (simp add: scan_loop_in_range)
qed

lemma offsets_of_candidates:
  "map fst (map (\<lambda>i. (i, py_slice xs i (i + 4))) idxs) = idxs"
  by (induction idxs) simp_all

lemma sorted_wrt_filter_upt: "sorted_wrt (<) (filter P [0..<n])"
  by (rule sorted_wrt_filter) simp

subsection \<open>The header check\<close>

lemma int_mod_8192: "(int n mod 0x2000 = 512) = (n mod 8192 = 512)"
proof -
  have "int n mod 0x2000 = int (n mod 8192)"
    by (simp add: zmod_int)
  then show ?thesis by simp
qed

lemma byte_is_0_or_255: "(uint (b::byte) = 0x00 \<or> uint b = 0xFF) = (b = 0x00 \<or> b = 0xFF)"
  using word_uint_eq_iff [of b "0xFF"] by (simp add: uint_0_iff)

lemma detect_header_eq:
  "detect_header data =
     (if length data mod 8192 = 512 \<and> (\<forall>b \<in> set (take 512 data). b = 0x00 \<or> b = 0xFF)
      then ([header_notice], drop 512 data) else ([], data))"
  by (simp add: detect_header_def py_slice_def int_mod_8192 byte_is_0_or_255 list_all_iff)

subsection \<open>The transform\<close>

lemma bytes_ctor_mod: "bytes_ctor (map (\<lambda>k. k mod 256) ks) = Inr (map word_of_int ks)"
  by (induction ks) (simp_all add: word_of_int_mod_256)

text \<open>The masked addition always fits a byte, so \<open>bytes\<close> never raises here.\<close>

lemma convert_sequence_eq: "convert_sequence seq = Inr (map (\<lambda>b. b + 0xA7) seq)"
proof -
  have "map (\<lambda>b. (uint b + 0xA7) AND 0xFF) seq =
          map (\<lambda>k. k mod 256) (map (\<lambda>b. uint b + 0xA7) seq)"
    by (simp add: and_255_mod)
  moreover have "map word_of_int (map (\<lambda>b. uint b + 0xA7) seq) = map (\<lambda>b. b + (0xA7 :: byte)) seq"
    by simp
  ultimately show ?thesis
    by (simp only: convert_sequence_def Let_def bytes_ctor_mod)
qed

lemma inverse_transform_eq: "inverse_transform w = map (\<lambda>x. x - 0xA7) w"
  by (simp add: inverse_transform_def word_of_int_mod_256)

lemma uint_plus_A7: "uint ((x::byte) + 0xA7) = (uint x + 0xA7) mod 256"
  by (simp add: uint_word_ariths)

subsection \<open>The kana fold\<close>

lemma katakana_to_hiragana_eq:
  "katakana_to_hiragana s =
     Inr (map (\<lambda>ch. if 0x30A1 \<le> ch \<and> ch \<le> 0x30F6 then ch - 0x60 else ch) s)"
  by (induction s) (auto simp: fold_char_def chr_py_def ord_py_def)

lemma kana_fold_idempotent:
  assumes "katakana_to_hiragana s = Inr t"
  shows "katakana_to_hiragana t = Inr t"
proof -
  let ?f = "\<lambda>ch::nat. if 0x30A1 \<le> ch \<and> ch \<le> 0x30F6 then ch - 0x60 else ch"
  have twice: "?f (?f ch) = ?f ch" for ch
    by simp arith
  have "t = map ?f s"
    using assms by (simp add: katakana_to_hiragana_eq)
  then have "map ?f t = t"
    using twice by (simp del: if_cancel)
  then show ?thesis
    by (simp add: katakana_to_hiragana_eq)
qed

text \<open>No string folds to a string that contains the katakana letter U+30C7.\<close>

lemma kana_fold_has_no_30C7:
  assumes "katakana_to_hiragana s = Inr t"
  shows "0x30C7 \<notin> set t"
proof -
  have "t = map (\<lambda>ch. if 0x30A1 \<le> ch \<and> ch \<le> 0x30F6 then ch - 0x60 else ch) s"
    using assms by (simp add: katakana_to_hiragana_eq)
  then show ?thesis
    by auto
qed

subsection \<open>The report loop\<close>

lemma decode_shift_jis_eq:
  "decode_shift_jis cp932 data = Inr (case cp932 data of Inr t \<Rightarrow> t | Inl e \<Rightarrow> undecodable)"
  by (simp add: decode_shift_jis_def split: sum.split)

text \<open>The loop appends one block per candidate and never stops early.\<close>

lemma report_loop_total:
  "\<exists>lines. report_loop cp932 nfkc cands out = Inr lines \<and>
      length lines = length out + length cands"
proof (induction cands arbitrary: out)
  case Nil
  show ?case by simp
next
  case (Cons c cands)
  obtain offset seq where c: "c = (offset, seq)"
    by (cases c)
  obtain block where step:
    "report_loop cp932 nfkc (c # cands) out = report_loop cp932 nfkc cands (out @ [block])"
    by (simp add: c convert_sequence_eq decode_shift_jis_eq katakana_to_hiragana_eq Let_def)
  from Cons.IH [of "out @ [block]"] show ?case
    unfolding step by simp
qed

lemma report_loop_eq:
  "report_loop cp932 nfkc cands out = Inr (out @ map (appended_block cp932 nfkc) cands)"
proof (induction cands arbitrary: out)
  case Nil
  show ?case by simp
next
  case (Cons c cands)
  obtain offset seq where c: "c = (offset, seq)"
    by (cases c)
  have step: "report_loop cp932 nfkc (c # cands) out =
      report_loop cp932 nfkc cands (out @ [appended_block cp932 nfkc c])"
    by (simp add: c appended_block_def convert_sequence_eq decode_shift_jis_eq
        katakana_to_hiragana_eq to_fullwidth_def Let_def)
  show ?case
    unfolding step Cons.IH by simp
qed

lemma core_report_eq:
  assumes "search_candidates (snd (detect_header raw)) = Inr cands"
  shows "core_report cp932 nfkc raw =
     Inr (join [0x0A] ((count_label @ format_dec (length cands) @ [0x0A])
                        # map (appended_block cp932 nfkc) cands))"
  using assms by (simp add: core_report_def report_loop_eq Let_def)

text \<open>
  The block of a candidate depends on the library functions only through the codec's
  answer on the converted window and the normaliser's answer on the decoded text.
\<close>

lemma appended_block_cong:
  assumes "\<forall>conv. convert_sequence seq = Inr conv \<longrightarrow>
      cp932a conv = cp932b conv \<and>
      (\<forall>decoded. decode_shift_jis cp932a conv = Inr decoded \<longrightarrow> nfkca decoded = nfkcb decoded)"
  shows "appended_block cp932a nfkca (offset, seq) = appended_block cp932b nfkcb (offset, seq)"
proof -
  let ?conv = "map (\<lambda>b. b + 0xA7) seq"
  let ?decoded = "case cp932a ?conv of Inr s \<Rightarrow> s | Inl e \<Rightarrow> undecodable"
  have conv: "convert_sequence seq = Inr ?conv"
    by (rule convert_sequence_eq)
  with assms have codec: "cp932a ?conv = cp932b ?conv"
    by blast
  have "decode_shift_jis cp932a ?conv = Inr ?decoded"
    by (rule decode_shift_jis_eq)
  with assms conv have "nfkca ?decoded = nfkcb ?decoded"
    by blast
  then show ?thesis
    by (simp add: appended_block_def codec Let_def)
qed

lemma core_report_total: "\<exists>report. core_report cp932 nfkc raw = Inr report"
proof -
  obtain cands where cands: "search_candidates (snd (detect_header raw)) = Inr cands"
    by (simp add: search_candidates_eq)
  obtain lines where
    "report_loop cp932 nfkc cands [count_label @ format_dec (length cands) @ [0x0A]] = Inr lines"
    using report_loop_total by blast
  then show ?thesis
    by (simp add: core_report_def cands Let_def)
qed

section \<open>The claims\<close>

text \<open>
  C1. For a byte sequence \<open>data\<close> and a start offset \<open>i\<close> with \<open>i + 4 \<le> length data\<close>, the
  scanner returns (it does not raise) and \<open>i\<close> is among the offsets it returns exactly
  when the three signed differences are 28, -7 and 12, each byte \<open>b\<close> being read as
  \<open>b\<close> when \<open>b < 128\<close> and \<open>b - 256\<close> otherwise (\<open>to_signed\<close>). The offsets come in
  ascending order and every offset is paired with the four bytes that start there.
\<close>

theorem search_candidates_iff:
  assumes "i + 4 \<le> length data"
  shows "\<exists>cands. search_candidates data = Inr cands \<and>
           (i \<in> set (map fst cands) \<longleftrightarrow>
              to_signed (uint (data ! i)) - to_signed (uint (data ! (i + 1))) = 28 \<and>
              to_signed (uint (data ! (i + 1))) - to_signed (uint (data ! (i + 2))) = - 7 \<and>
              to_signed (uint (data ! (i + 2))) - to_signed (uint (data ! (i + 3))) = 12) \<and>
           sorted (map fst cands) \<and>
           (\<forall>(j, w) \<in> set cands.
              w = py_slice data j (j + 4) \<and>
              w = [data ! j, data ! (j + 1), data ! (j + 2), data ! (j + 3)])"
proof -
  let ?offs = "filter (window_matches data) [0..<length data - 3]"
  let ?cands = "map (\<lambda>j. (j, py_slice data j (j + 4))) ?offs"
  have res: "search_candidates data = Inr ?cands"
    by (rule search_candidates_eq)
  have offs: "map fst ?cands = ?offs"
    by (rule offsets_of_candidates)
  have "i \<in> set [0..<length data - 3]"
    using assms by simp
  then have mem: "i \<in> set (map fst ?cands) \<longleftrightarrow> window_matches data i"
    unfolding offs by simp
  have "sorted_wrt (<) ?offs"
    by (rule sorted_wrt_filter_upt)
  then have "sorted ?offs"
    by (rule strict_sorted_imp_sorted)
  then have srt: "sorted (map fst ?cands)"
    unfolding offs .
  have win: "\<forall>(j, w) \<in> set ?cands.
      w = py_slice data j (j + 4) \<and>
      w = [data ! j, data ! (j + 1), data ! (j + 2), data ! (j + 3)]"
    by (auto simp: py_slice_window)
  show ?thesis
    using res mem srt win unfolding window_matches_def by blast
qed

theorem search_candidates_iff_witness:
  "\<exists>cands. search_candidates [0x00, 0xE4, 0xEB, 0xDF] = Inr cands \<and> 0 \<in> set (map fst cands)"
proof -
  have len: "0 + 4 \<le> length [0x00, 0xE4, 0xEB, 0xDF :: byte]"
    by simp
  from search_candidates_iff [OF len] obtain cands where
    res: "search_candidates [0x00, 0xE4, 0xEB, 0xDF] = Inr cands" and
    mem: "0 \<in> set (map fst cands) \<longleftrightarrow>
      to_signed (uint ([0x00, 0xE4, 0xEB, 0xDF :: byte] ! 0))
        - to_signed (uint ([0x00, 0xE4, 0xEB, 0xDF :: byte] ! (0 + 1))) = 28 \<and>
      to_signed (uint ([0x00, 0xE4, 0xEB, 0xDF :: byte] ! (0 + 1)))
        - to_signed (uint ([0x00, 0xE4, 0xEB, 0xDF :: byte] ! (0 + 2))) = - 7 \<and>
      to_signed (uint ([0x00, 0xE4, 0xEB, 0xDF :: byte] ! (0 + 2)))
        - to_signed (uint ([0x00, 0xE4, 0xEB, 0xDF :: byte] ! (0 + 3))) = 12"
    by blast
  have "0 \<in> set (map fst cands)"
    unfolding mem by (simp add: to_signed_def)
  with res show ?thesis by blast
qed

text \<open>
  C2. \<open>detect_header\<close> is a total function (no operation in it can raise). It returns the
  input without its first 512 bytes, and prints the notice, exactly when the length is
  512 modulo 8192 and each of the first 512 bytes is 0x00 or 0xFF; in every other case
  it returns the input unchanged and prints nothing. The returned sequence is 512 bytes
  shorter than the input exactly in the first case.
\<close>

theorem detect_header_strips_iff:
  "snd (detect_header data) =
     (if length data mod 8192 = 512 \<and> (\<forall>b \<in> set (take 512 data). b = 0x00 \<or> b = 0xFF)
      then drop 512 data else data) \<and>
   (length (snd (detect_header data)) + 512 = length data \<longleftrightarrow>
      length data mod 8192 = 512 \<and> (\<forall>b \<in> set (take 512 data). b = 0x00 \<or> b = 0xFF)) \<and>
   (fst (detect_header data) = [header_notice] \<longleftrightarrow>
      length data mod 8192 = 512 \<and> (\<forall>b \<in> set (take 512 data). b = 0x00 \<or> b = 0xFF)) \<and>
   (fst (detect_header data) = [] \<longleftrightarrow>
      \<not> (length data mod 8192 = 512 \<and> (\<forall>b \<in> set (take 512 data). b = 0x00 \<or> b = 0xFF)))"
proof (cases "length data mod 8192 = 512 \<and> (\<forall>b \<in> set (take 512 data). b = 0x00 \<or> b = 0xFF)")
  case True
  then have "512 \<le> length data"
    using mod_less_eq_dividend [of "length data" 8192] by simp
  with True show ?thesis
    by (simp add: detect_header_eq)
next
  case False
  then show ?thesis
    by (auto simp: detect_header_eq)
qed

theorem detect_header_strips_iff_witness:
  "snd (detect_header (replicate 512 0x00 @ replicate 8192 0x41)) = replicate 8192 0x41 \<and>
   snd (detect_header (replicate 512 0x41 @ replicate 8192 0x00)) =
     replicate 512 0x41 @ replicate 8192 0x00"
  using detect_header_strips_iff [of "replicate 512 0x00 @ replicate 8192 0x41"]
    detect_header_strips_iff [of "replicate 512 0x41 @ replicate 8192 0x00"]
  by simp

text \<open>
  C3. \<open>convert_sequence\<close> never raises and maps each byte \<open>x\<close> to \<open>(x + 0xA7) mod 256\<close>.
  On four-byte windows it is a bijection onto the (successful) four-byte results, and
  the inverse transform \<open>(x - 0xA7) mod 256\<close> gives back the original window, for every
  byte value; transforming an inverse-transformed window gives that window back too.
\<close>

theorem convert_sequence_bijection:
  "(\<exists>r. convert_sequence w = Inr r \<and>
        map uint r = map (\<lambda>x. (uint x + 0xA7) mod 256) w \<and>
        inverse_transform r = w) \<and>
   convert_sequence (inverse_transform w) = Inr w \<and>
   bij_betw convert_sequence {v. length v = 4} (Inr ` {r. length r = 4})"
proof -
  have fwd: "convert_sequence w = Inr (map (\<lambda>b. b + 0xA7) w)"
    by (rule convert_sequence_eq)
  have vals: "map uint (map (\<lambda>b. b + 0xA7) w) = map (\<lambda>x. (uint x + 0xA7) mod 256) w"
    by (simp add: uint_plus_A7)
  have undo: "inverse_transform (map (\<lambda>b. b + 0xA7) v) = v" for v
    by (simp add: inverse_transform_eq map_idI)
  have forth: "convert_sequence (inverse_transform v) = Inr v" for v
    by (simp add: convert_sequence_eq inverse_transform_eq map_idI)
  have inj: "inj_on convert_sequence {v. length v = 4}"
  proof (rule inj_onI)
    fix u v :: pybytes
    assume "convert_sequence u = convert_sequence v"
    then have "map (\<lambda>b. b + 0xA7) u = map (\<lambda>b. b + 0xA7) v"
      by (simp add: convert_sequence_eq)
    then have "inverse_transform (map (\<lambda>b. b + 0xA7) u) = inverse_transform (map (\<lambda>b. b + 0xA7) v)"
      by simp
    then show "u = v"
      by (simp only: undo)
  qed
  have img: "convert_sequence ` {v. length v = 4} = Inr ` {r. length r = 4}"
  proof (rule set_eqI, rule iffI)
    fix y
    assume "y \<in> convert_sequence ` {v. length v = 4}"
    then show "y \<in> Inr ` {r. length r = 4}"
      by (auto simp: convert_sequence_eq)
  next
    fix y :: "py_error + pybytes"
    assume "y \<in> Inr ` {r. length r = 4}"
    then obtain r where r: "y = Inr r" "length r = 4"
      by auto
    have "length (inverse_transform r) = 4"
      using r by (simp add: inverse_transform_eq)
    moreover have "convert_sequence (inverse_transform r) = y"
      using r forth by simp
    ultimately show "y \<in> convert_sequence ` {v. length v = 4}"
      by (metis (mono_tags, lifting) imageI mem_Collect_eq)
  qed
  have "bij_betw convert_sequence {v. length v = 4} (Inr ` {r. length r = 4})"
    unfolding bij_betw_def using inj img by simp
  with fwd vals undo forth show ?thesis
    by simp
qed

theorem convert_sequence_bijection_witness:
  "convert_sequence [0x00, 0xE4, 0xEB, 0xDF] = Inr [0xA7, 0x8B, 0x92, 0x86] \<and>
   convert_sequence [0xFF, 0x59, 0x00, 0x58] = Inr [0xA6, 0x00, 0xA7, 0xFF]"
proof -
  have eq: "convert_sequence w = Inr r" if "inverse_transform r = w" for w r
    using convert_sequence_bijection [of r] that by simp
  show ?thesis
    by (simp add: eq inverse_transform_def)
qed

text \<open>
  C5. \<open>katakana_to_hiragana\<close> never raises; it replaces each character whose code point is
  in \<open>[0x30A1, 0x30F6]\<close> by the one \<open>0x60\<close> lower (no truncation: the code point is at
  least \<open>0x30A1\<close>) and leaves every other character unchanged, for every string.
\<close>

theorem katakana_to_hiragana_map:
  "katakana_to_hiragana s =
     Inr (map (\<lambda>ch. if 0x30A1 \<le> ch \<and> ch \<le> 0x30F6 then ch - 0x60 else ch) s) \<and>
   (\<exists>t. katakana_to_hiragana s = Inr t \<and>
        map int t = map (\<lambda>ch. if 0x30A1 \<le> int ch \<and> int ch \<le> 0x30F6 then int ch - 0x60 else int ch) s)"
proof -
  have "map int (map (\<lambda>ch. if 0x30A1 \<le> ch \<and> ch \<le> 0x30F6 then ch - 0x60 else ch) s) =
        map (\<lambda>ch. if 0x30A1 \<le> int ch \<and> int ch \<le> 0x30F6 then int ch - 0x60 else int ch) s"
    by (induction s) auto
  then show ?thesis
    by (simp add: katakana_to_hiragana_eq)
qed

theorem katakana_to_hiragana_map_witness:
  "katakana_to_hiragana [0x30AB, 0x30A1, 0x30F6, 0x30A0, 0x30F7, 0x30FC, 0x3042, 0x41] =
     Inr [0x304B, 0x3041, 0x3096, 0x30A0, 0x30F7, 0x30FC, 0x3042, 0x41]"
  using katakana_to_hiragana_map [of "[0x30AB, 0x30A1, 0x30F6, 0x30A0, 0x30F7, 0x30FC, 0x3042, 0x41]"]
  by simp

text \<open>
  C9. For every payload, the scanner returns candidates whose windows have exactly four
  bytes and whose offsets are below the payload length minus 3; the offsets are strictly
  increasing; and nothing is dropped: every offset whose window matches is reported with
  its window, also when the windows of two matches overlap.
\<close>

theorem candidates_invariant:
  "\<exists>cands. search_candidates payload = Inr cands \<and>
     (\<forall>(offset, w) \<in> set cands. length w = 4 \<and> int offset < int (length payload) - 3) \<and>
     sorted_wrt (<) (map fst cands) \<and>
     (\<forall>i. i + 4 \<le> length payload \<and> window_matches payload i \<longrightarrow>
          (i, py_slice payload i (i + 4)) \<in> set cands)"
proof -
  let ?offs = "filter (window_matches payload) [0..<length payload - 3]"
  let ?cands = "map (\<lambda>j. (j, py_slice payload j (j + 4))) ?offs"
  have res: "search_candidates payload = Inr ?cands"
    by (rule search_candidates_eq)
  have shape: "\<forall>(offset, w) \<in> set ?cands. length w = 4 \<and> int offset < int (length payload) - 3"
    by (auto simp: py_slice_window)
  have "sorted_wrt (<) ?offs"
    by (rule sorted_wrt_filter_upt)
  then have order: "sorted_wrt (<) (map fst ?cands)"
    by (simp only: offsets_of_candidates)
  have kept: "\<forall>i. i + 4 \<le> length payload \<and> window_matches payload i \<longrightarrow>
      (i, py_slice payload i (i + 4)) \<in> set ?cands"
    by auto
  show ?thesis
    using res shape order kept by blast
qed

theorem candidates_invariant_witness:
  "\<exists>cands. search_candidates [0xDE, 0xC2, 0xC9, 0xBD, 0xA1, 0xA8, 0x9C] = Inr cands \<and>
     (0, [0xDE, 0xC2, 0xC9, 0xBD]) \<in> set cands \<and>
     (3, [0xBD, 0xA1, 0xA8, 0x9C]) \<in> set cands \<and>
     sorted_wrt (<) (map fst cands)"
proof -
  let ?p = "[0xDE, 0xC2, 0xC9, 0xBD, 0xA1, 0xA8, 0x9C] :: pybytes"
  from candidates_invariant [of ?p] obtain cands where
    res: "search_candidates ?p = Inr cands" and
    order: "sorted_wrt (<) (map fst cands)" and
    kept: "\<forall>i. i + 4 \<le> length ?p \<and> window_matches ?p i \<longrightarrow>
      (i, py_slice ?p i (i + 4)) \<in> set cands"
    by blast
  have m0: "0 + 4 \<le> length ?p \<and> window_matches ?p 0"
    by (simp add: window_matches_def to_signed_def)
  have m3: "3 + 4 \<le> length ?p \<and> window_matches ?p 3"
    by (simp add: window_matches_def to_signed_def)
  have "(0, py_slice ?p 0 (0 + 4)) \<in> set cands"
    using kept m0 by blast
  moreover have "(3, py_slice ?p 3 (3 + 4)) \<in> set cands"
    using kept m3 by blast
  ultimately show ?thesis
    using res order by (auto simp: py_slice_def)
qed

text \<open>
  C8. For an input of fewer than four bytes (the empty input included) the scanner
  returns no candidate, and the report is produced all the same: it is the count line
  with the count 0, followed by a line feed.
\<close>

theorem short_input_report:
  assumes "length data < 4"
  shows "search_candidates data = Inr [] \<and>
         core_report cp932 nfkc data = Inr (count_label @ [0x30, 0x0A])"
proof -
  have hdr: "detect_header data = ([], data)"
    using assms by (simp add: detect_header_eq)
  have "[0..<length data - 3] = []"
    using assms by simp
  then have none: "search_candidates data = Inr []"
    by (simp add: search_candidates_eq)
  have "format_dec 0 = [0x30]"
    by (simp add: format_dec.simps digit_char_def)
  then show ?thesis
    by (simp add: core_report_def hdr none)
qed

theorem short_input_report_witness:
  "search_candidates [0x00, 0xE4, 0xEB] = Inr [] \<and>
   core_report (\<lambda>bs. Inl UnicodeDecodeError) (\<lambda>s. s) [] =
     Inr [0x691C, 0x51FA, 0x3055, 0x308C, 0x305F, 0x5019, 0x88DC, 0x6570, 0x3A, 0x20, 0x30, 0x0A]"
proof -
  have a: "length [0x00, 0xE4, 0xEB :: byte] < 4" and b: "length ([] :: pybytes) < 4"
    by simp_all
  show ?thesis
    using short_input_report [OF a] short_input_report [OF b]
    by (simp add: count_label_def)
qed

text \<open>
  C4. \<open>decode_shift_jis\<close> never raises, whatever the codec does: it returns the codec's
  decoding when there is one and the marker \<open>undecodable\<close> when the codec raises. So the
  loop over the candidates never stops early: it returns, with one block appended for
  each candidate.
\<close>

theorem decode_shift_jis_never_raises:
  "decode_shift_jis cp932 data =
     Inr (case cp932 data of Inr decoded \<Rightarrow> decoded | Inl e \<Rightarrow> undecodable) \<and>
   (\<exists>lines. report_loop cp932 nfkc cands out = Inr lines \<and>
      length lines = length out + length cands)"
  using decode_shift_jis_eq [of cp932 data] report_loop_total [of cp932 nfkc cands out]
  by simp

theorem decode_shift_jis_never_raises_witness:
  "decode_shift_jis (\<lambda>bs. if bs = [0x41] then Inr [0x41] else Inl UnicodeDecodeError) [0x41] =
     Inr [0x41] \<and>
   decode_shift_jis (\<lambda>bs. if bs = [0x41] then Inr [0x41] else Inl UnicodeDecodeError)
     [0xA7, 0x8B, 0x92, 0x86] = Inr undecodable"
  using
    decode_shift_jis_never_raises
      [of "\<lambda>bs. if bs = [0x41] then Inr [0x41] else Inl UnicodeDecodeError" "[0x41]"
          "\<lambda>s. s" "[]" "[]"]
    decode_shift_jis_never_raises
      [of "\<lambda>bs. if bs = [0x41] then Inr [0x41] else Inl UnicodeDecodeError"
          "[0xA7, 0x8B, 0x92, 0x86]" "\<lambda>s. s" "[]" "[]"]
  by simp

text \<open>
  C7, as stated, does not hold: the marker contains the katakana letters U+30C7, U+30B3
  and U+30C9, which the kana fold rewrites. No string at all folds to the marker, so the
  folded rendering differs from the marker whatever the width fold returns.
\<close>

theorem sentinel_unchanged_counterexample:
  "katakana_to_hiragana undecodable \<noteq> Inr undecodable \<and>
   \<not> (\<exists>nfkc. katakana_to_hiragana (to_fullwidth nfkc undecodable) = Inr undecodable)"
proof -
  have has: "0x30C7 \<in> set undecodable"
    by (simp add: undecodable_def)
  have never: "katakana_to_hiragana s \<noteq> Inr undecodable" for s
    using kana_fold_has_no_30C7 [of s undecodable] has by blast
  show ?thesis
    using never by simp
qed

text \<open>
  C7, amended. When the codec raises on a candidate's converted bytes, the decoded
  rendering is the marker. The kana fold of the marker is the marker with U+30C7, U+30B3
  and U+30C9 lowered by 0x60 (U+30FC is outside the folded range and stays); so when
  the width fold returns the marker unchanged, the folded rendering is that string, and
  in no case is the folded rendering the marker itself.
\<close>

theorem sentinel_renderings:
  assumes "cp932 conv = Inl e"
  shows "decode_shift_jis cp932 conv = Inr undecodable \<and>
         katakana_to_hiragana undecodable =
           Inr [0x3C, 0x3067, 0x3053, 0x30FC, 0x3069, 0x4E0D, 0x53EF, 0x3E] \<and>
         (to_fullwidth nfkc undecodable = undecodable \<longrightarrow>
            katakana_to_hiragana (to_fullwidth nfkc undecodable) =
              Inr [0x3C, 0x3067, 0x3053, 0x30FC, 0x3069, 0x4E0D, 0x53EF, 0x3E]) \<and>
         katakana_to_hiragana (to_fullwidth nfkc undecodable) \<noteq> Inr undecodable"
proof -
  have dec: "decode_shift_jis cp932 conv = Inr undecodable"
    using assms by (simp add: decode_shift_jis_eq)
  have fold: "katakana_to_hiragana undecodable =
      Inr [0x3C, 0x3067, 0x3053, 0x30FC, 0x3069, 0x4E0D, 0x53EF, 0x3E]"
    by (simp add: katakana_to_hiragana_eq undecodable_def)
  have has: "0x30C7 \<in> set undecodable"
    by (simp add: undecodable_def)
  have never: "katakana_to_hiragana (to_fullwidth nfkc undecodable) \<noteq> Inr undecodable"
    using kana_fold_has_no_30C7 [of "to_fullwidth nfkc undecodable" undecodable] has by blast
  show ?thesis
    using dec fold never by simp
qed

theorem sentinel_renderings_witness:
  "decode_shift_jis (\<lambda>bs. Inl UnicodeDecodeError) [0xA7, 0x8B, 0x92, 0x86] = Inr undecodable \<and>
   to_fullwidth (\<lambda>s. s) undecodable = undecodable \<and>
   katakana_to_hiragana (to_fullwidth (\<lambda>s. s) undecodable) =
     Inr [0x3C, 0x3067, 0x3053, 0x30FC, 0x3069, 0x4E0D, 0x53EF, 0x3E]"
proof -
  have fails: "(\<lambda>bs :: pybytes. Inl UnicodeDecodeError :: py_error + ustring) [0xA7, 0x8B, 0x92, 0x86] =
      Inl UnicodeDecodeError"
    by simp
  have same: "to_fullwidth (\<lambda>s. s) undecodable = undecodable"
    by (simp add: to_fullwidth_def)
  show ?thesis
    using sentinel_renderings [OF fails, where nfkc = "\<lambda>s. s"] same by simp
qed

text \<open>
  C10. The report is determined by the raw bytes and by what the two library functions
  answer on the arguments the chain passes to them, and by nothing else. Take two runs
  on the same raw bytes, each with library functions of its own: if the two codecs
  agree on the converted window of every candidate and the two normalisers agree on
  every decoded text, then both runs return, neither raises, and they return the same
  report; that report is the count line followed by one block for each candidate, joined
  by line feeds. Two runs with the same library functions are the special case.
\<close>

theorem core_report_deterministic:
  assumes "search_candidates (snd (detect_header raw)) = Inr cands"
    and "\<forall>(offset, seq) \<in> set cands. \<forall>conv. convert_sequence seq = Inr conv \<longrightarrow>
           cp932a conv = cp932b conv \<and>
           (\<forall>decoded. decode_shift_jis cp932a conv = Inr decoded \<longrightarrow>
              nfkca decoded = nfkcb decoded)"
  shows "\<exists>report.
           core_report cp932a nfkca raw = Inr report \<and>
           core_report cp932b nfkcb raw = Inr report \<and>
           report = join [0x0A] ((count_label @ format_dec (length cands) @ [0x0A])
                                  # map (appended_block cp932a nfkca) cands)"
proof -
  have "appended_block cp932a nfkca c = appended_block cp932b nfkcb c" if "c \<in> set cands" for c
  proof -
    obtain offset seq where c: "c = (offset, seq)"
      by (cases c)
    from assms(2) that c have
      "\<forall>conv. convert_sequence seq = Inr conv \<longrightarrow>
         cp932a conv = cp932b conv \<and>
         (\<forall>decoded. decode_shift_jis cp932a conv = Inr decoded \<longrightarrow> nfkca decoded = nfkcb decoded)"
      by blast
    then show ?thesis
      unfolding c by (rule appended_block_cong)
  qed
  then have same: "map (appended_block cp932a nfkca) cands = map (appended_block cp932b nfkcb) cands"
    by simp
  show ?thesis
    using core_report_eq [OF assms(1), of cp932a nfkca] core_report_eq [OF assms(1), of cp932b nfkcb]
    by (simp add: same)
qed

text \<open>
  Two runs on the window \<open>00 E4 EB DF\<close> whose library functions differ, but not on what
  the chain asks them: both codecs reject the converted window \<open>A7 8B 92 86\<close>, and both
  normalisers leave the marker alone.
\<close>

theorem core_report_deterministic_witness:
  "\<exists>report.
     core_report (\<lambda>bs. Inl UnicodeDecodeError) (\<lambda>s. s) [0x00, 0xE4, 0xEB, 0xDF] = Inr report \<and>
     core_report (\<lambda>bs. if bs = [0x41] then Inr [0x41] else Inl UnicodeDecodeError)
       (\<lambda>s. if s = undecodable then s else []) [0x00, 0xE4, 0xEB, 0xDF] = Inr report"
proof -
  let ?raw = "[0x00, 0xE4, 0xEB, 0xDF] :: pybytes"
  let ?c1 = "(\<lambda>bs. Inl UnicodeDecodeError) :: pybytes \<Rightarrow> py_error + ustring"
  let ?c2 = "(\<lambda>bs. if bs = [0x41] then Inr [0x41] else Inl UnicodeDecodeError)
               :: pybytes \<Rightarrow> py_error + ustring"
  let ?n1 = "(\<lambda>s. s) :: ustring \<Rightarrow> ustring"
  let ?n2 = "(\<lambda>s. if s = undecodable then s else []) :: ustring \<Rightarrow> ustring"
  have hdr: "snd (detect_header ?raw) = ?raw"
    by (simp add: detect_header_eq)
  have cands: "search_candidates (snd (detect_header ?raw)) = Inr [(0, ?raw)]"
    unfolding hdr
    by (simp add: search_candidates_eq window_matches_def to_signed_def py_slice_def)
  have agree: "\<forall>(offset, seq) \<in> set [(0 :: nat, ?raw)]. \<forall>conv. convert_sequence seq = Inr conv \<longrightarrow>
      ?c1 conv = ?c2 conv \<and>
      (\<forall>decoded. decode_shift_jis ?c1 conv = Inr decoded \<longrightarrow> ?n1 decoded = ?n2 decoded)"
    by (auto simp: convert_sequence_eq decode_shift_jis_eq)
  from core_report_deterministic [OF cands agree] show ?thesis
    by blast
qed

end
